theory Spec2Isabelle
  imports Main
begin

section \<open>JavaScript values\<close>

text \<open>
  The values that reach the key binding registry. Functions and other objects are
  references: two of them are the same value exactly when they are the same object, so
  each carries its identity. Numbers are the integers and \<open>NaN\<close>, the one value that is
  not strictly equal to itself. Symbols and big integers are not modelled. Action names
  are strings, as property keys are.
\<close>

datatype jsval =
    JUndefined
  | JNull
  | JBool bool
  | JNum int
  | JNaN
  | JStr string
  | JFun nat
  | JObj nat

fun typeof :: "jsval \<Rightarrow> string" where
  "typeof JUndefined = ''undefined''"
| "typeof JNull = ''object''"
| "typeof (JBool b) = ''boolean''"
| "typeof (JNum n) = ''number''"
| "typeof JNaN = ''number''"
| "typeof (JStr s) = ''string''"
| "typeof (JFun f) = ''function''"
| "typeof (JObj r) = ''object''"

text \<open>Strict equality \<open>===\<close>, which \<open>Array.prototype.indexOf\<close> compares with.\<close>

definition strict_eq :: "jsval \<Rightarrow> jsval \<Rightarrow> bool" where
  "strict_eq a b = (a \<noteq> JNaN \<and> a = b)"

text \<open>
  What a call raises. \<open>IsNotAFunction v\<close> is the string
  \<open>v + ' is not a function'\<close> that \<open>addEventHandler\<close> throws (the specification's
  \<open>InvalidHandlerError\<close>); \<open>TypeError\<close> is the error of the language itself, raised by a
  method call on \<open>undefined\<close>, by a call of a member that does not exist, and by a call
  of a value that is not a function; \<open>Thrown v\<close> is a value that a handler of the
  application throws.
\<close>

datatype js_error = IsNotAFunction jsval | TypeError | Thrown jsval

type_synonym 'a outcome = "js_error + 'a"

section \<open>The object behind the multimap\<close>

text \<open>
  \<open>this.map = {}\<close> is an ordinary object: reading \<open>this.map[key]\<close> finds the object's
  own property of that name and, when there is none, the member of that name that every
  ordinary object inherits from \<open>Object.prototype\<close>. The own properties are only ever
  the arrays that \<open>put\<close> creates.
\<close>

definition object_prototype_names :: "string list" where
  "object_prototype_names =
     [''constructor'', ''hasOwnProperty'', ''isPrototypeOf'', ''propertyIsEnumerable'',
      ''toLocaleString'', ''toString'', ''valueOf'', ''__proto__'',
      ''__defineGetter__'', ''__defineSetter__'', ''__lookupGetter__'', ''__lookupSetter__'']"

text \<open>
  The result of reading a property: \<open>undefined\<close>, one of the arrays, or an inherited
  member (a built-in function, or \<open>Object.prototype\<close> itself under \<open>__proto__\<close>). An
  inherited member is an object, so it is truthy, and it has no \<open>push\<close>, \<open>indexOf\<close>
  or \<open>forEach\<close>.
\<close>

datatype slot = Undefined | JArray "jsval list" | Inherited string

fun truthy :: "slot \<Rightarrow> bool" where
  "truthy Undefined = False"
| "truthy (JArray xs) = True"
| "truthy (Inherited name) = True"

section \<open>Multimap\<close>

record multimap =
  map_obj :: "string \<rightharpoonup> jsval list"

definition Multimap_new :: multimap where
  "Multimap_new = \<lparr>map_obj = Map.empty\<rparr>"

text \<open>\<open>this.map[key]\<close>\<close>

definition property :: "multimap \<Rightarrow> string \<Rightarrow> slot" where
  "property m key =
     (case map_obj m key of
        Some xs \<Rightarrow> JArray xs
      | None \<Rightarrow> if key \<in> set object_prototype_names then Inherited key else Undefined)"

text \<open>
  Every method returns what it raised or returned together with the multimap it leaves
  behind: an exception does not undo what was written before it.

  \<open>put\<close>: the assignment \<open>this.map[key] = []\<close> runs only where the property reads as
  falsy, which is where the name is neither an own property nor inherited, so it always
  creates an own property. \<open>push\<close> is then called on whatever the property reads as.
\<close>

definition Multimap_put :: "multimap \<Rightarrow> string \<Rightarrow> jsval \<Rightarrow> unit outcome \<times> multimap" where
  "Multimap_put m key val =
     (let m1 = (if \<not> truthy (property m key)
                then m\<lparr>map_obj := (map_obj m)(key \<mapsto> [])\<rparr>
                else m)
      in case property m1 key of
           JArray xs \<Rightarrow> (Inr (), m1\<lparr>map_obj := (map_obj m1)(key \<mapsto> xs @ [val])\<rparr>)
         | Undefined \<Rightarrow> (Inl TypeError, m1)
         | Inherited name \<Rightarrow> (Inl TypeError, m1))"

definition Multimap_get :: "multimap \<Rightarrow> string \<Rightarrow> slot" where
  "Multimap_get m key = property m key"

text \<open>\<open>array.indexOf(value)\<close>: the first index whose element is strictly equal, or -1.\<close>

fun Array_indexOf :: "jsval list \<Rightarrow> jsval \<Rightarrow> int" where
  "Array_indexOf [] val = -1"
| "Array_indexOf (x # xs) val =
     (if strict_eq x val then 0
      else (let i = Array_indexOf xs val in if i < 0 then -1 else i + 1))"

text \<open>\<open>array.splice(start, deleteCount)\<close> for a start inside the array.\<close>

definition Array_splice :: "jsval list \<Rightarrow> nat \<Rightarrow> nat \<Rightarrow> jsval list" where
  "Array_splice xs start deleteCount = take start xs @ drop (start + deleteCount) xs"

definition Multimap_remove :: "multimap \<Rightarrow> string \<Rightarrow> jsval \<Rightarrow> unit outcome \<times> multimap" where
  "Multimap_remove m key val =
     (case property m key of
        Undefined \<Rightarrow> (Inr (), m)
      | Inherited name \<Rightarrow> (Inl TypeError, m)
      | JArray array \<Rightarrow>
          (let index = Array_indexOf array val
           in if index \<ge> 0
              then (Inr (), m\<lparr>map_obj := (map_obj m)(key \<mapsto> Array_splice array (nat index) 1)\<rparr>)
              else (Inr (), m)))"

section \<open>KeyBindings\<close>

datatype keyspec = Key string | Keys "string list"

record binding =
  action :: string
  keys :: keyspec

record keybindings =
  eventHandlers :: multimap
  bindings :: "binding list"

definition addEventHandler :: "keybindings \<Rightarrow> string \<Rightarrow> jsval \<Rightarrow> unit outcome \<times> keybindings" where
  "addEventHandler kb act eventHandler =
     (if typeof eventHandler \<noteq> ''function''
      then (Inl (IsNotAFunction eventHandler), kb)
      else (let (r, m) = Multimap_put (eventHandlers kb) act eventHandler
            in (r, kb\<lparr>eventHandlers := m\<rparr>)))"

definition removeShortcutHandler :: "keybindings \<Rightarrow> string \<Rightarrow> jsval \<Rightarrow> unit outcome \<times> keybindings" where
  "removeShortcutHandler kb act eventHandler =
     (let (r, m) = Multimap_remove (eventHandlers kb) act eventHandler
      in (r, kb\<lparr>eventHandlers := m\<rparr>))"

definition shortcutHandlers :: "keybindings \<Rightarrow> string \<Rightarrow> slot" where
  "shortcutHandlers kb act = Multimap_get (eventHandlers kb) act"

text \<open>The handlers registered for an action: the array, or nothing where there is none.\<close>

definition registered :: "keybindings \<Rightarrow> string \<Rightarrow> jsval list" where
  "registered kb act =
     (case shortcutHandlers kb act of JArray xs \<Rightarrow> xs | Undefined \<Rightarrow> [] | Inherited name \<Rightarrow> [])"

section \<open>Handlers and the dispatch\<close>

text \<open>
  The handlers are functions of the application, and the dispatch runs them. What a
  handler does to the registry it does through the two methods that write to it.
\<close>

datatype api_call =
    Call_addEventHandler string jsval
  | Call_removeShortcutHandler string jsval

fun perform :: "keybindings \<Rightarrow> api_call \<Rightarrow> keybindings" where
  "perform kb (Call_addEventHandler act h) = snd (addEventHandler kb act h)"
| "perform kb (Call_removeShortcutHandler act h) = snd (removeShortcutHandler kb act h)"

definition perform_all :: "keybindings \<Rightarrow> api_call list \<Rightarrow> keybindings" where
  "perform_all kb cs = foldl perform kb cs"

text \<open>
  The behaviour of the application's functions: what a function does when it is called
  with an action name on the registry as it is, namely the calls it makes to the
  registry, in order, and whether it then returns or raises. (A call of its that raises
  writes nothing, so it is the same whether the function catches it or ends there.)
  What a function does may depend on the action name and on the registry; it is taken
  to depend on nothing else.
\<close>

type_synonym behaviour = "jsval \<Rightarrow> string \<Rightarrow> keybindings \<Rightarrow> api_call list \<times> unit outcome"

text \<open>A call \<open>handler(action)\<close> that the dispatch makes: the function called and its arguments.\<close>

type_synonym call = "jsval \<times> jsval list"

text \<open>
  The loop \<open>forEach(handler => { return handler(action); })\<close>. \<open>forEach\<close> reads the
  length of the array once, and then for each index below it, in order, calls the
  callback on the element that the array has at that index at that moment, and skips an
  index that the array no longer has. The array is the one stored for the action, and no
  method replaces or deletes it, so a handler that registers or unregisters during the
  loop changes the array the loop is walking. Calling a value that is not a function
  raises a \<open>TypeError\<close>, and what a handler raises is not caught; either ends the loop.
  The result of a handler is dropped.

  \<open>forEach_handler env act n k kb\<close> is the rest of the loop at index \<open>k\<close> with \<open>n\<close>
  indices to go: how it ends, the calls it makes, and the registry it leaves.
\<close>

fun forEach_handler ::
  "behaviour \<Rightarrow> string \<Rightarrow> nat \<Rightarrow> nat \<Rightarrow> keybindings \<Rightarrow> unit outcome \<times> call list \<times> keybindings" where
  "forEach_handler env act 0 k kb = (Inr (), [], kb)"
| "forEach_handler env act (Suc n) k kb =
     (let array = registered kb act
      in if k < length array
         then (let handler = array ! k
               in if typeof handler = ''function''
                  then (let (cs, r) = env handler act kb;
                            kb1 = perform_all kb cs
                        in case r of
                             Inl e \<Rightarrow> (Inl e, [(handler, [JStr act])], kb1)
                           | Inr u \<Rightarrow>
                               (let (r', calls, kb2) = forEach_handler env act n (Suc k) kb1
                                in (r', (handler, [JStr act]) # calls, kb2)))
                  else (Inl TypeError, [], kb))
         else forEach_handler env act n (Suc k) kb)"

text \<open>
  \<open>handle(action, handlers)\<close>, where \<open>handlers\<close> is \<open>this.eventHandlers\<close> of the
  registry: \<open>forEach\<close> is called on whatever \<open>get\<close> returned, with no test in between.
\<close>

definition handle :: "behaviour \<Rightarrow> string \<Rightarrow> keybindings \<Rightarrow> unit outcome \<times> call list \<times> keybindings" where
  "handle env act kb =
     (case Multimap_get (eventHandlers kb) act of
        JArray array \<Rightarrow> forEach_handler env act (length array) 0 kb
      | Undefined \<Rightarrow> (Inl TypeError, [], kb)
      | Inherited name \<Rightarrow> (Inl TypeError, [], kb))"

text \<open>
  The constructor: the registry, and the calls \<open>Mousetrap.bind(e.keys, callback)\<close> it
  makes, one for each binding in order, each callback standing for its action name.
\<close>

definition KeyBindings_new :: "binding list \<Rightarrow> keybindings \<times> (keyspec \<times> string) list" where
  "KeyBindings_new bs =
     (\<lparr>eventHandlers = Multimap_new, bindings = bs\<rparr>, map (\<lambda>e. (keys e, action e)) bs)"

text \<open>
  The callback \<open>() => handle(e.action, this.eventHandlers)\<close> registered for an action,
  run on the registry as it is when the key sequence is detected.
\<close>

definition callback :: "behaviour \<Rightarrow> string \<Rightarrow> keybindings \<Rightarrow> unit outcome \<times> call list \<times> keybindings" where
  "callback env act kb = handle env act kb"

section \<open>Sequences of operations\<close>

text \<open>
  The operations an application and the detection engine perform on a registry, and the
  registry each leaves behind, whether it returned or raised. \<open>shortcutHandlers\<close> writes
  nothing; the callback leaves what the handlers it ran have written.
\<close>

datatype operation =
    Op_addEventHandler string jsval
  | Op_removeShortcutHandler string jsval
  | Op_shortcutHandlers string
  | Op_callback string

fun step :: "behaviour \<Rightarrow> keybindings \<Rightarrow> operation \<Rightarrow> keybindings" where
  "step env kb (Op_addEventHandler act h) = snd (addEventHandler kb act h)"
| "step env kb (Op_removeShortcutHandler act h) = snd (removeShortcutHandler kb act h)"
| "step env kb (Op_shortcutHandlers act) = kb"
| "step env kb (Op_callback act) = snd (snd (callback env act kb))"

definition run :: "behaviour \<Rightarrow> keybindings \<Rightarrow> operation list \<Rightarrow> keybindings" where
  "run env kb ops = foldl (step env) kb ops"

text \<open>The invariant of the registry: every stored value is a function.\<close>

definition handlers_invocable :: "keybindings \<Rightarrow> bool" where
  "handlers_invocable kb =
     (\<forall>key. case map_obj (eventHandlers kb) key of
               None \<Rightarrow> True
             | Some xs \<Rightarrow> list_all (\<lambda>v. typeof v = ''function'') xs)"

text \<open>How many of the calls made are calls of \<open>h\<close>.\<close>

definition invocations :: "jsval \<Rightarrow> call list \<Rightarrow> nat" where
  "invocations h calls = length (filter (\<lambda>c. fst c = h) calls)"

text \<open>
  A function that, whenever it is called with the action name, returns, and leaves the
  handlers that were registered for the action in place: the collection before the call
  is an initial part of the collection after it (the function may register more).
\<close>

definition returns_keeping :: "behaviour \<Rightarrow> string \<Rightarrow> jsval \<Rightarrow> bool" where
  "returns_keeping env act g =
     (\<forall>kb. snd (env g act kb) = Inr () \<and>
           take (length (registered kb act)) (registered (perform_all kb (fst (env g act kb))) act)
             = registered kb act)"

section \<open>Example handlers and an example registry\<close>

text \<open>Functions that do nothing and return.\<close>

definition inert :: behaviour where
  "inert h act kb = ([], Inr ())"

text \<open>
  \<open>f = a => registry.removeShortcutHandler(a, f)\<close>, a handler that unregisters itself
  from the action it is called with; every other function does nothing.
\<close>

definition one_shot :: "jsval \<Rightarrow> behaviour" where
  "one_shot f h act kb =
     (if h = f then ([Call_removeShortcutHandler act h], Inr ()) else ([], Inr ()))"


text \<open>
  The configuration of the usage example in the class comment, and the registry
  constructed from it.
\<close>

definition example_bindings :: "binding list" where
  "example_bindings =
     [\<lparr>action = ''zoom-in'', keys = Key ''ctrl+=''\<rparr>,
      \<lparr>action = ''copy-text'', keys = Key ''command+c''\<rparr>,
      \<lparr>action = ''quit'', keys = Keys [''mod+q'', ''alt+q'']\<rparr>]"

definition example_registry :: keybindings where
  "example_registry = fst (KeyBindings_new example_bindings)"

text \<open>The example registry with the given handlers registered for one action.\<close>

definition example_with :: "string \<Rightarrow> jsval list \<Rightarrow> keybindings" where
  "example_with act hs = example_registry\<lparr>eventHandlers := \<lparr>map_obj = [act \<mapsto> hs]\<rparr>\<rparr>"

section \<open>Facts about the multimap\<close>

lemma property_JArray_iff: "property m key = JArray xs \<longleftrightarrow> map_obj m key = Some xs"
  by (auto simp: property_def split: option.splits)

lemma property_Undefined_iff:
  "property m key = Undefined \<longleftrightarrow> map_obj m key = None \<and> key \<notin> set object_prototype_names"
  by (auto simp: property_def split: option.splits)

lemma Multimap_put_returns:
  "Multimap_put m key val = (Inr (), m') \<Longrightarrow>
   m' = m\<lparr>map_obj := (map_obj m)(key \<mapsto> (case map_obj m key of None \<Rightarrow> [] | Some xs \<Rightarrow> xs) @ [val])\<rparr>"
  by (auto simp: Multimap_put_def property_def Let_def split: option.splits if_splits)

lemma Multimap_put_raises:
  "Multimap_put m key val = (Inl e, m') \<Longrightarrow>
   m' = m \<and> e = TypeError \<and> map_obj m key = None \<and> key \<in> set object_prototype_names"
  by (auto simp: Multimap_put_def property_def Let_def split: option.splits if_splits)

lemma Multimap_put_other:
  "key' \<noteq> key \<Longrightarrow> map_obj (snd (Multimap_put m key val)) key' = map_obj m key'"
  by (auto simp: Multimap_put_def property_def Let_def split: option.splits if_splits)

lemma Multimap_put_not_inherited:
  "key \<notin> set object_prototype_names \<Longrightarrow> fst (Multimap_put m key val) = Inr ()"
  by (auto simp: Multimap_put_def property_def Let_def split: option.splits if_splits)

lemma Array_indexOf_lower: "- 1 \<le> Array_indexOf xs val"
  by (induction xs) (auto simp: Let_def)

text \<open>For every value but \<open>NaN\<close>, \<open>indexOf\<close> and \<open>splice\<close> delete the first occurrence.\<close>

lemma indexOf_splice_remove1:
  "val \<noteq> JNaN \<Longrightarrow>
   (if Array_indexOf xs val \<ge> 0 then Array_splice xs (nat (Array_indexOf xs val)) 1 else xs)
     = remove1 val xs"
proof (induction xs)
  case Nil
  then show ?case by (simp add: Array_splice_def)
next
  case (Cons x xs)
  have low: "- 1 \<le> Array_indexOf xs val"
    by (rule Array_indexOf_lower)
  show ?case
  proof (cases "x = val")
    case True
    with Cons.prems show ?thesis
      by (simp add: strict_eq_def Array_splice_def)
  next
    case False
    with Cons low show ?thesis
      by (auto simp: Let_def Array_splice_def strict_eq_def nat_add_distrib)
  qed
qed

lemma Multimap_remove_returns:
  "val \<noteq> JNaN \<Longrightarrow> map_obj m key = Some xs \<Longrightarrow>
   Multimap_remove m key val = (Inr (), m\<lparr>map_obj := (map_obj m)(key \<mapsto> remove1 val xs)\<rparr>)"
proof -
  assume v: "val \<noteq> JNaN" and own: "map_obj m key = Some xs"
  have same: "m\<lparr>map_obj := (map_obj m)(key \<mapsto> xs)\<rparr> = m"
    using own by (simp add: fun_upd_idem)
  show ?thesis
  proof (cases "Array_indexOf xs val \<ge> 0")
    case True
    with indexOf_splice_remove1 [OF v, of xs] own show ?thesis
      by (simp add: Multimap_remove_def property_def Let_def)
  next
    case False
    with indexOf_splice_remove1 [OF v, of xs] own same show ?thesis
      by (simp add: Multimap_remove_def property_def Let_def)
  qed
qed

text \<open>\<open>NaN\<close> is strictly equal to nothing, so removing it finds nothing to delete.\<close>

lemma Multimap_remove_NaN:
  "map_obj m key = Some xs \<Longrightarrow> Multimap_remove m key JNaN = (Inr (), m)"
proof -
  have "Array_indexOf ys JNaN = - 1" for ys
    by (induction ys) (simp_all add: strict_eq_def)
  then show "map_obj m key = Some xs \<Longrightarrow> Multimap_remove m key JNaN = (Inr (), m)"
    by (simp add: Multimap_remove_def property_def)
qed

lemma Multimap_remove_unknown:
  "property m key = Undefined \<Longrightarrow> Multimap_remove m key val = (Inr (), m)"
  by (simp add: Multimap_remove_def)

lemma Multimap_remove_other:
  "key' \<noteq> key \<Longrightarrow> map_obj (snd (Multimap_remove m key val)) key' = map_obj m key'"
  by (auto simp: Multimap_remove_def Let_def split: slot.splits)

lemma Multimap_remove_own:
  "map_obj m key = Some xs \<Longrightarrow>
   \<exists>ys. map_obj (snd (Multimap_remove m key val)) key = Some ys \<and> set ys \<subseteq> set xs"
  by (auto simp: Multimap_remove_def property_def Let_def Array_splice_def
      dest: in_set_takeD in_set_dropD)

lemma Multimap_remove_absent:
  "map_obj m key = None \<Longrightarrow> snd (Multimap_remove m key val) = m"
  by (auto simp: Multimap_remove_def property_def Let_def)

lemma Multimap_get_never_put:
  "key \<notin> set object_prototype_names \<Longrightarrow> Multimap_get Multimap_new key = Undefined"
  by (simp add: Multimap_get_def property_def Multimap_new_def)

lemma Multimap_get_after_put:
  "Multimap_put m key val = (Inr (), m') \<Longrightarrow>
   Multimap_get m' key = JArray ((case map_obj m key of None \<Rightarrow> [] | Some xs \<Rightarrow> xs) @ [val])"
  by (drule Multimap_put_returns) (simp add: Multimap_get_def property_def)

lemma Multimap_remove_not_inherited:
  "key \<notin> set object_prototype_names \<Longrightarrow> fst (Multimap_remove m key val) = Inr ()"
  by (auto simp: Multimap_remove_def property_def Let_def split: option.splits)

section \<open>Facts about the registry\<close>

lemma registered_own:
  "map_obj (eventHandlers kb) act = Some xs \<Longrightarrow> registered kb act = xs"
  by (simp add: registered_def shortcutHandlers_def Multimap_get_def property_def)

lemma registered_none:
  "map_obj (eventHandlers kb) act = None \<Longrightarrow> registered kb act = []"
  by (simp add: registered_def shortcutHandlers_def Multimap_get_def property_def)

lemma shortcutHandlers_JArray_iff:
  "shortcutHandlers kb act = JArray xs \<longleftrightarrow> map_obj (eventHandlers kb) act = Some xs"
  by (simp add: shortcutHandlers_def Multimap_get_def property_JArray_iff)

lemma invocable_own:
  "handlers_invocable kb \<Longrightarrow> map_obj (eventHandlers kb) act = Some xs \<Longrightarrow>
   list_all (\<lambda>v. typeof v = ''function'') xs"
  by (auto simp: handlers_invocable_def split: option.splits)

text \<open>A handler that is not a function is refused, and the registry is as it was.\<close>

lemma addEventHandler_not_function:
  "typeof v \<noteq> ''function'' \<Longrightarrow> addEventHandler kb act v = (Inl (IsNotAFunction v), kb)"
  by (simp add: addEventHandler_def)

lemma addEventHandler_returns:
  "addEventHandler kb act h = (Inr (), kb') \<Longrightarrow>
   typeof h = ''function'' \<and>
   kb' = kb\<lparr>eventHandlers := (eventHandlers kb)
            \<lparr>map_obj := (map_obj (eventHandlers kb))(act \<mapsto> registered kb act @ [h])\<rparr>\<rparr>"
  by (auto simp: addEventHandler_def registered_def shortcutHandlers_def Multimap_get_def
      property_def split: if_splits prod.splits option.splits dest!: Multimap_put_returns)

lemma addEventHandler_function:
  "typeof h = ''function'' \<Longrightarrow> act \<notin> set object_prototype_names \<Longrightarrow>
   fst (addEventHandler kb act h) = Inr ()"
  using Multimap_put_not_inherited [of act "eventHandlers kb" h]
  by (auto simp: addEventHandler_def split: prod.splits)

lemma addEventHandler_own:
  "addEventHandler kb act h = (Inr (), kb') \<Longrightarrow>
   map_obj (eventHandlers kb') act = Some (registered kb act @ [h])"
  by (drule addEventHandler_returns) simp

lemma addEventHandler_invocable:
  "handlers_invocable kb \<Longrightarrow> handlers_invocable (snd (addEventHandler kb act h))"
proof (cases "addEventHandler kb act h")
  case (Pair r kb')
  assume inv: "handlers_invocable kb"
  show ?thesis
  proof (cases r)
    case (Inl e)
    with Pair have "kb' = kb"
      by (auto simp: addEventHandler_def split: if_splits prod.splits dest: Multimap_put_raises)
    with Pair inv show ?thesis by simp
  next
    case (Inr u)
    with Pair have ret: "addEventHandler kb act h = (Inr (), kb')" by simp
    note r = addEventHandler_returns [OF ret]
    have old: "list_all (\<lambda>v. typeof v = ''function'') (registered kb act)"
      using inv by (cases "map_obj (eventHandlers kb) act")
        (auto simp: registered_none registered_own dest: invocable_own)
    from r old inv show ?thesis
      unfolding Pair by (auto simp: handlers_invocable_def split: option.splits)
  qed
qed

lemma removeShortcutHandler_invocable:
  "handlers_invocable kb \<Longrightarrow> handlers_invocable (snd (removeShortcutHandler kb act h))"
proof -
  assume inv: "handlers_invocable kb"
  have "list_all (\<lambda>v. typeof v = ''function'') ys"
    if own: "map_obj (snd (Multimap_remove (eventHandlers kb) act h)) key = Some ys" for key ys
  proof (cases "key = act")
    case False
    with own inv show ?thesis
      by (auto simp: Multimap_remove_other dest: invocable_own)
  next
    case True
    show ?thesis
    proof (cases "map_obj (eventHandlers kb) act")
      case None
      with own True show ?thesis by (simp add: Multimap_remove_absent)
    next
      case (Some xs)
      from Multimap_remove_own [OF Some, of h] own True
      have "set ys \<subseteq> set xs" by auto
      moreover from inv Some have "list_all (\<lambda>v. typeof v = ''function'') xs"
        by (rule invocable_own)
      ultimately show ?thesis by (auto simp: list_all_iff)
    qed
  qed
  then show ?thesis
    by (auto simp: handlers_invocable_def removeShortcutHandler_def split: prod.splits option.splits)
qed

text \<open>With a function, removal through the registry deletes the first occurrence.\<close>

lemma removeShortcutHandler_returns:
  "h \<noteq> JNaN \<Longrightarrow> map_obj (eventHandlers kb) act = Some xs \<Longrightarrow>
   removeShortcutHandler kb act h =
     (Inr (), kb\<lparr>eventHandlers := (eventHandlers kb)
                \<lparr>map_obj := (map_obj (eventHandlers kb))(act \<mapsto> remove1 h xs)\<rparr>\<rparr>)"
  by (simp add: removeShortcutHandler_def Multimap_remove_returns)

lemma new_invocable: "handlers_invocable (fst (KeyBindings_new bs))"
  by (simp add: handlers_invocable_def KeyBindings_new_def Multimap_new_def)

text \<open>An array, once created for an action, stays: no method deletes a property.\<close>

lemma addEventHandler_keeps_array:
  "map_obj (eventHandlers kb) act \<noteq> None \<Longrightarrow>
   map_obj (eventHandlers (snd (addEventHandler kb a h))) act \<noteq> None"
  by (auto simp: addEventHandler_def Multimap_put_def property_def Let_def
      split: prod.splits if_splits option.splits)

lemma removeShortcutHandler_keeps_array:
  "map_obj (eventHandlers kb) act \<noteq> None \<Longrightarrow>
   map_obj (eventHandlers (snd (removeShortcutHandler kb a h))) act \<noteq> None"
  by (auto simp: removeShortcutHandler_def Multimap_remove_def property_def Let_def
      split: prod.splits if_splits option.splits)

section \<open>Facts about the dispatch\<close>

text \<open>
  Whatever the handlers do, the dispatch leaves the registry in a state that the two
  writing methods lead to: a property they keep, it keeps.
\<close>

lemma perform_all_preserves:
  assumes "\<And>kb c. P kb \<Longrightarrow> P (perform kb c)" and "P kb"
  shows "P (perform_all kb cs)"
  using assms(2) unfolding perform_all_def
proof (induction cs arbitrary: kb)
  case Nil
  then show ?case by simp
next
  case (Cons c cs)
  from Cons.prems have "P (perform kb c)" by (rule assms(1))
  then have "P (foldl perform (perform kb c) cs)" by (rule Cons.IH)
  then show ?case by simp
qed

lemma forEach_handler_preserves:
  assumes "\<And>kb c. P kb \<Longrightarrow> P (perform kb c)" and "P kb"
  shows "P (snd (snd (forEach_handler env act n k kb)))"
  using assms(2)
proof (induction n arbitrary: k kb)
  case 0
  then show ?case by simp
next
  case (Suc n)
  show ?case
  proof (cases "k < length (registered kb act) \<and> typeof (registered kb act ! k) = ''function''")
    case False
    with Suc show ?thesis by (auto simp: Let_def)
  next
    case True
    obtain cs r where e: "env (registered kb act ! k) act kb = (cs, r)"
      by (cases "env (registered kb act ! k) act kb")
    have p1: "P (perform_all kb cs)"
      using assms(1) Suc.prems by (rule perform_all_preserves)
    show ?thesis
    proof (cases r)
      case (Inl err)
      with True e p1 show ?thesis by (simp add: Let_def)
    next
      case (Inr u)
      from p1 have "P (snd (snd (forEach_handler env act n (Suc k) (perform_all kb cs))))"
        by (rule Suc.IH)
      with True e Inr show ?thesis by (auto simp: Let_def split: prod.splits)
    qed
  qed
qed

lemma callback_preserves:
  assumes "\<And>kb c. P kb \<Longrightarrow> P (perform kb c)" and "P kb"
  shows "P (snd (snd (callback env act kb)))"
proof (cases "Multimap_get (eventHandlers kb) act")
  case (JArray xs)
  with forEach_handler_preserves [of P kb env act "length xs" 0, OF assms]
  show ?thesis by (simp add: callback_def handle_def)
qed (simp_all add: callback_def handle_def assms(2))

lemma perform_invocable: "handlers_invocable kb \<Longrightarrow> handlers_invocable (perform kb c)"
  by (cases c) (simp_all add: addEventHandler_invocable removeShortcutHandler_invocable)

lemma perform_keeps_array:
  "map_obj (eventHandlers kb) act \<noteq> None \<Longrightarrow> map_obj (eventHandlers (perform kb c)) act \<noteq> None"
  by (cases c) (simp_all only: perform.simps addEventHandler_keeps_array
      removeShortcutHandler_keeps_array not_False_eq_True)

lemma step_invocable: "handlers_invocable kb \<Longrightarrow> handlers_invocable (step env kb op)"
proof (cases op)
  case (Op_callback act)
  assume "handlers_invocable kb"
  with perform_invocable have "handlers_invocable (snd (snd (callback env act kb)))"
    by (rule callback_preserves)
  with Op_callback show ?thesis by simp
qed (simp_all add: addEventHandler_invocable removeShortcutHandler_invocable)

lemma run_invocable: "handlers_invocable kb \<Longrightarrow> handlers_invocable (run env kb ops)"
  unfolding run_def by (induction ops arbitrary: kb) (simp_all add: step_invocable)

lemma step_keeps_array:
  assumes "map_obj (eventHandlers kb) act \<noteq> None"
  shows "map_obj (eventHandlers (step env kb op)) act \<noteq> None"
proof (cases op)
  case (Op_addEventHandler a h)
  with assms show ?thesis
    by (simp only: step.simps addEventHandler_keeps_array not_False_eq_True)
next
  case (Op_removeShortcutHandler a h)
  with assms show ?thesis
    by (simp only: step.simps removeShortcutHandler_keeps_array not_False_eq_True)
next
  case (Op_shortcutHandlers a)
  with assms show ?thesis by simp
next
  case (Op_callback a)
  have "map_obj (eventHandlers (snd (snd (callback env a kb)))) act \<noteq> None"
    by (rule callback_preserves [of "\<lambda>kb. map_obj (eventHandlers kb) act \<noteq> None"])
      (rule perform_keeps_array, assumption, rule assms)
  with Op_callback show ?thesis by simp
qed

lemma run_keeps_array:
  "map_obj (eventHandlers kb) act \<noteq> None \<Longrightarrow>
   map_obj (eventHandlers (run env kb ops)) act \<noteq> None"
  unfolding run_def
proof (induction ops arbitrary: kb)
  case Nil
  then show ?case by simp
next
  case (Cons op ops)
  from Cons.prems have "map_obj (eventHandlers (step env kb op)) act \<noteq> None"
    by (rule step_keeps_array)
  then have "map_obj (eventHandlers (foldl (step env) (step env kb op) ops)) act \<noteq> None"
    by (rule Cons.IH)
  then show ?case by simp
qed

lemma callback_no_array:
  "map_obj (eventHandlers kb) act = None \<Longrightarrow> callback env act kb = (Inl TypeError, [], kb)"
  by (simp add: callback_def handle_def Multimap_get_def property_def)

lemma callback_empty_array:
  "map_obj (eventHandlers kb) act = Some [] \<Longrightarrow> callback env act kb = (Inr (), [], kb)"
  by (simp add: callback_def handle_def Multimap_get_def property_def)

text \<open>
  The loop over handlers that return and keep the registered handlers in place: from
  index \<open>k\<close> on it calls the handlers that were there when it started, in order, and
  returns.
\<close>

lemma forEach_handler_keeping:
  assumes quiet: "\<forall>g \<in> set xs. returns_keeping env act g"
    and fn: "\<forall>g \<in> set xs. typeof g = ''function''"
  shows "k + n = length xs \<Longrightarrow> take (length xs) (registered kb act) = xs \<Longrightarrow>
         \<exists>kb'. forEach_handler env act n k kb = (Inr (), map (\<lambda>g. (g, [JStr act])) (drop k xs), kb')
               \<and> take (length xs) (registered kb' act) = xs"
proof (induction n arbitrary: k kb)
  case 0
  then show ?case by simp
next
  case (Suc n)
  let ?array = "registered kb act"
  from Suc.prems have k: "k < length xs" by simp
  from Suc.prems(2) have "length (take (length xs) ?array) = length xs"
    by simp
  then have len: "length xs \<le> length ?array"
    by simp
  with k have k': "k < length ?array" by simp
  from Suc.prems(2) k have at: "?array ! k = xs ! k"
    by (metis nth_take)
  from k have mem: "xs ! k \<in> set xs" by simp
  with fn have f: "typeof (xs ! k) = ''function''" by blast
  from mem quiet have q: "returns_keeping env act (xs ! k)" by blast
  obtain cs r where e: "env (xs ! k) act kb = (cs, r)"
    by (cases "env (xs ! k) act kb")
  from q e have r: "r = Inr ()"
    by (auto simp: returns_keeping_def dest: spec [of _ kb])
  from q e have keep: "take (length ?array) (registered (perform_all kb cs) act) = ?array"
    by (auto simp: returns_keeping_def dest: spec [of _ kb])
  have "take (length xs) (registered (perform_all kb cs) act)
      = take (length xs) (take (length ?array) (registered (perform_all kb cs) act))"
    using len by (simp add: min_def)
  with keep Suc.prems(2)
  have pre: "take (length xs) (registered (perform_all kb cs) act) = xs" by simp
  from Suc.prems(1) have "Suc k + n = length xs" by simp
  from Suc.IH [OF this pre] obtain kb' where
    rest: "forEach_handler env act n (Suc k) (perform_all kb cs)
             = (Inr (), map (\<lambda>g. (g, [JStr act])) (drop (Suc k) xs), kb')"
    and pre': "take (length xs) (registered kb' act) = xs"
    by blast
  have "drop k xs = xs ! k # drop (Suc k) xs"
    using k by (simp add: Cons_nth_drop_Suc)
  with k' at f e r rest pre' show ?case
    by (simp add: Let_def)
qed

text \<open>
  So a dispatch in which every registered handler returns and keeps the registered
  handlers in place calls each of them once, in the order of the collection.
\<close>

lemma callback_keeping:
  assumes "handlers_invocable kb" and "map_obj (eventHandlers kb) act = Some xs"
    and "\<forall>g \<in> set xs. returns_keeping env act g"
  shows "\<exists>kb'. callback env act kb = (Inr (), map (\<lambda>g. (g, [JStr act])) xs, kb')"
proof -
  from assms(1,2) have "list_all (\<lambda>v. typeof v = ''function'') xs"
    by (rule invocable_own)
  then have fn: "\<forall>g \<in> set xs. typeof g = ''function''"
    by (simp add: list_all_iff)
  have reg: "registered kb act = xs"
    using assms(2) by (rule registered_own)
  from forEach_handler_keeping [OF assms(3) fn, of 0 "length xs" kb] reg
  obtain kb' where
    "forEach_handler env act (length xs) 0 kb = (Inr (), map (\<lambda>g. (g, [JStr act])) xs, kb')"
    by auto
  with assms(2) show ?thesis
    by (simp add: callback_def handle_def Multimap_get_def property_def)
qed

lemma invocations_map:
  "invocations h (map (\<lambda>g. (g, args)) xs) = count_list xs h"
  by (induction xs) (simp_all add: invocations_def)

lemma returns_keeping_inert: "returns_keeping inert act g"
  by (simp add: returns_keeping_def inert_def perform_all_def)

section \<open>Facts about the examples\<close>

lemma example_registry_simps:
  "eventHandlers example_registry = \<lparr>map_obj = Map.empty\<rparr>"
  "bindings example_registry = example_bindings"
  by (simp_all add: example_registry_def KeyBindings_new_def Multimap_new_def)

lemma example_invocable: "handlers_invocable example_registry"
  unfolding example_registry_def by (rule new_invocable)

lemma example_with_simps:
  "map_obj (eventHandlers (example_with act hs)) = [act \<mapsto> hs]"
  "registered (example_with act hs) act = hs"
  by (simp_all add: example_with_def registered_def shortcutHandlers_def Multimap_get_def
      property_def)


lemma addEventHandler_example:
  "act \<notin> set object_prototype_names \<Longrightarrow>
   addEventHandler example_registry act (JFun f) = (Inr (), example_with act [JFun f])"
  by (simp add: addEventHandler_def Multimap_put_def property_def example_registry_simps
      example_with_def)

lemma addEventHandler_example_with:
  "addEventHandler (example_with act hs) act (JFun f) = (Inr (), example_with act (hs @ [JFun f]))"
  by (simp add: addEventHandler_def Multimap_put_def property_def example_with_def)

lemma removeShortcutHandler_example_with:
  "removeShortcutHandler (example_with act hs) act (JFun f)
     = (Inr (), example_with act (remove1 (JFun f) hs))"
  using removeShortcutHandler_returns [of "JFun f" "example_with act hs" act hs]
  by (simp add: example_with_simps) (simp add: example_with_def)


text \<open>Two registrations of a handler that was not registered leave it registered twice.\<close>

lemma addEventHandler_twice:
  assumes "h \<notin> set (registered kb act)"
    and "addEventHandler kb act h = (Inr (), kb1)"
    and "addEventHandler kb1 act h = (Inr (), kb2)"
  shows "shortcutHandlers kb2 act = JArray (registered kb act @ [h, h])"
    and "count_list (registered kb act @ [h, h]) h = 2"
proof -
  have own1: "map_obj (eventHandlers kb1) act = Some (registered kb act @ [h])"
    using assms(2) by (rule addEventHandler_own)
  have "map_obj (eventHandlers kb2) act = Some (registered kb act @ [h, h])"
    using addEventHandler_own [OF assms(3)] by (simp add: registered_own [OF own1])
  then show "shortcutHandlers kb2 act = JArray (registered kb act @ [h, h])"
    by (simp add: shortcutHandlers_JArray_iff)
  show "count_list (registered kb act @ [h, h]) h = 2"
    using assms(1) by (simp add: count_list_0_iff)
qed

section \<open>The claims\<close>

text \<open>
  C1. The claim: for an action name for which no handler has ever been registered, the
  callback that the constructor registers invokes no handler and raises no error.
  The code: in the registry constructed from the example configuration, with no handler
  added, the callback for \<open>quit\<close> invokes no handler and raises a \<open>TypeError\<close>,
  since \<open>get\<close> returns \<open>undefined\<close> and \<open>forEach\<close> is called on it. It is so for
  every action that has no array yet (\<open>callback_no_array\<close>).
\<close>

theorem callback_unregistered_raises:
  "callback env ''quit'' (fst (KeyBindings_new example_bindings))
     = (Inl TypeError, [], fst (KeyBindings_new example_bindings))"
  by (simp add: callback_def handle_def Multimap_get_def property_def KeyBindings_new_def
      Multimap_new_def object_prototype_names_def)

text \<open>
  C2. The claim: \<open>addEventHandler\<close> with a value that is not invocable raises and leaves
  the multimap as it was, and with an invocable value it does not raise.
  The code: the first half holds (\<open>addEventHandler_not_function\<close>). With the function
  \<open>JFun 1\<close> and the action name \<open>toString\<close> it raises a \<open>TypeError\<close>: the name reads
  as the member inherited from \<open>Object.prototype\<close>, no array is created, and \<open>push\<close>
  is called on that member.
\<close>

theorem addEventHandler_inherited_name_raises:
  "typeof (JFun 1) = ''function'' \<and>
   addEventHandler example_registry ''toString'' (JFun 1) = (Inl TypeError, example_registry)"
  by (simp add: addEventHandler_def Multimap_put_def property_def example_registry_simps
      object_prototype_names_def)

text \<open>
  C3, as stated: after \<open>addEventHandler(A, h)\<close> a dispatch of \<open>A\<close> invokes \<open>h\<close> exactly
  once. It fails in two ways. Where \<open>h\<close> was registered for \<open>A\<close> before, it is
  invoked once for each registration: \<open>JFun 1\<close>, registered to \<open>zoom-in\<close> a second
  time, is invoked twice by handlers that do nothing. And where a handler registered
  before \<open>h\<close> unregisters itself when called, the array shrinks under the loop and
  \<open>h\<close> is not invoked at all: with the one-shot \<open>JFun 2\<close> registered and then
  \<open>JFun 1\<close> added, the dispatch calls \<open>JFun 2\<close> only.
\<close>

theorem addEventHandler_not_invoked_once:
  "addEventHandler (example_with ''zoom-in'' [JFun 1]) ''zoom-in'' (JFun 1)
     = (Inr (), example_with ''zoom-in'' [JFun 1, JFun 1]) \<and>
   callback inert ''zoom-in'' (example_with ''zoom-in'' [JFun 1, JFun 1])
     = (Inr (), [(JFun 1, [JStr ''zoom-in'']), (JFun 1, [JStr ''zoom-in''])],
        example_with ''zoom-in'' [JFun 1, JFun 1]) \<and>
   addEventHandler (example_with ''zoom-in'' [JFun 2]) ''zoom-in'' (JFun 1)
     = (Inr (), example_with ''zoom-in'' [JFun 2, JFun 1]) \<and>
   callback (one_shot (JFun 2)) ''zoom-in'' (example_with ''zoom-in'' [JFun 2, JFun 1])
     = (Inr (), [(JFun 2, [JStr ''zoom-in''])], example_with ''zoom-in'' [JFun 1])"
  by (simp add: addEventHandler_example_with removeShortcutHandler_example_with callback_def
      handle_def Multimap_get_def property_def example_with_simps inert_def one_shot_def
      perform_all_def Let_def)

text \<open>
  C3, amended: whenever \<open>addEventHandler(A, h)\<close> returns, the collection for \<open>A\<close> is
  the one before with \<open>h\<close> appended, so it contains \<open>h\<close> exactly once more than
  before. If moreover every handler then registered for \<open>A\<close>, when called with \<open>A\<close>,
  returns and leaves the handlers registered for \<open>A\<close> in place, a dispatch of \<open>A\<close>
  returns, having called the handlers registered before and then \<open>h\<close>, each with \<open>A\<close>
  as the sole argument: \<open>h\<close> is invoked once for each of its registrations, which is
  exactly once where it was not registered for \<open>A\<close> before.
\<close>

theorem addEventHandler_once_more:
  assumes "handlers_invocable kb" and "addEventHandler kb act h = (Inr (), kb')"
    and "\<forall>g \<in> set (registered kb act @ [h]). returns_keeping env act g"
  shows "shortcutHandlers kb' act = JArray (registered kb act @ [h]) \<and>
         count_list (registered kb' act) h = count_list (registered kb act) h + 1 \<and>
         (\<exists>kb''. callback env act kb' =
            (Inr (), map (\<lambda>g. (g, [JStr act])) (registered kb act) @ [(h, [JStr act])], kb'')) \<and>
         invocations h (fst (snd (callback env act kb'))) = count_list (registered kb act) h + 1 \<and>
         (h \<notin> set (registered kb act) \<longrightarrow> invocations h (fst (snd (callback env act kb'))) = 1)"
proof -
  have own: "map_obj (eventHandlers kb') act = Some (registered kb act @ [h])"
    using assms(2) by (rule addEventHandler_own)
  have "handlers_invocable (snd (addEventHandler kb act h))"
    using assms(1) by (rule addEventHandler_invocable)
  then have inv: "handlers_invocable kb'"
    by (simp add: assms(2))
  have reg: "registered kb' act = registered kb act @ [h]"
    using own by (rule registered_own)
  from callback_keeping [OF inv own assms(3)] obtain kb'' where
    cb: "callback env act kb' = (Inr (), map (\<lambda>g. (g, [JStr act])) (registered kb act @ [h]), kb'')"
    by blast
  have n: "invocations h (fst (snd (callback env act kb'))) = count_list (registered kb act) h + 1"
    unfolding cb by (simp only: fst_conv snd_conv invocations_map) simp
  have get: "shortcutHandlers kb' act = JArray (registered kb act @ [h])"
    using own by (simp add: shortcutHandlers_JArray_iff)
  show ?thesis
    using get reg cb n by (simp add: count_list_0_iff)
qed

theorem addEventHandler_once_more_witness:
  "handlers_invocable example_registry \<and>
   addEventHandler example_registry ''zoom-in'' (JFun 1)
     = (Inr (), example_with ''zoom-in'' [JFun 1]) \<and>
   returns_keeping inert ''zoom-in'' (JFun 1) \<and>
   shortcutHandlers (example_with ''zoom-in'' [JFun 1]) ''zoom-in'' = JArray [JFun 1] \<and>
   callback inert ''zoom-in'' (example_with ''zoom-in'' [JFun 1])
     = (Inr (), [(JFun 1, [JStr ''zoom-in''])], example_with ''zoom-in'' [JFun 1]) \<and>
   invocations (JFun 1)
     (fst (snd (callback inert ''zoom-in'' (example_with ''zoom-in'' [JFun 1])))) = 1"
proof -
  have inv: "handlers_invocable example_registry"
    by (rule example_invocable)
  have add: "addEventHandler example_registry ''zoom-in'' (JFun 1)
      = (Inr (), example_with ''zoom-in'' [JFun 1])"
    by (rule addEventHandler_example) (simp add: object_prototype_names_def)
  have none: "registered example_registry ''zoom-in'' = []"
    by (rule registered_none) (simp add: example_registry_simps)
  have quiet: "\<forall>g \<in> set (registered example_registry ''zoom-in'' @ [JFun 1]).
      returns_keeping inert ''zoom-in'' g"
    by (simp add: returns_keeping_inert)
  have cb: "callback inert ''zoom-in'' (example_with ''zoom-in'' [JFun 1])
      = (Inr (), [(JFun 1, [JStr ''zoom-in''])], example_with ''zoom-in'' [JFun 1])"
    by (simp add: callback_def handle_def Multimap_get_def property_def example_with_simps
        inert_def perform_all_def Let_def)
  show ?thesis
    using addEventHandler_once_more [OF inv add quiet] inv add none cb
    by (simp add: returns_keeping_inert invocations_def)
qed







text \<open>
  C6. The claim: removal deletes the first occurrence of the value from the key's
  collection, does nothing where the key is unknown or the value is not there, and
  never raises.
  The code: for a key that has an array it deletes the first occurrence and returns
  (\<open>Multimap_remove_returns\<close>), and for a key that reads as \<open>undefined\<close> it does
  nothing and returns (\<open>Multimap_remove_unknown\<close>). For the key \<open>toString\<close>, never
  used, it raises a \<open>TypeError\<close>: the name reads as the member inherited from
  \<open>Object.prototype\<close>, which is truthy, and \<open>indexOf\<close> is called on it.
  \<open>removeShortcutHandler\<close> hands its arguments to \<open>remove\<close> and raises with it.
\<close>

theorem remove_inherited_name_raises:
  "Multimap_remove Multimap_new ''toString'' (JFun 1) = (Inl TypeError, Multimap_new) \<and>
   removeShortcutHandler example_registry ''toString'' (JFun 1) = (Inl TypeError, example_registry)"
  by (simp add: removeShortcutHandler_def Multimap_remove_def property_def Multimap_new_def
      example_registry_simps object_prototype_names_def)

text \<open>
  C7. The claim: for a key never used with \<open>put\<close>, \<open>get\<close> returns the absent result,
  and for a key that has been used it returns the key's collection.
  The code: the second half holds (\<open>Multimap_get_after_put\<close>), and so does the first
  for every key that \<open>Object.prototype\<close> has no member for
  (\<open>Multimap_get_never_put\<close>). For the key \<open>constructor\<close> an empty multimap returns
  the inherited member, which is neither \<open>undefined\<close> nor a collection.
\<close>

theorem get_inherited_name_not_absent:
  "Multimap_get Multimap_new ''constructor'' = Inherited ''constructor'' \<and>
   Multimap_get Multimap_new ''constructor'' \<noteq> Undefined"
  by (simp add: Multimap_get_def property_def Multimap_new_def object_prototype_names_def)

text \<open>
  C8. Once \<open>addEventHandler\<close> has returned for an action, \<open>shortcutHandlers\<close> returns a
  collection for it after every further sequence of operations, whatever the handlers
  that the callbacks run do, never \<open>undefined\<close>; and where that collection is empty,
  the callback of the action invokes nothing and returns.
\<close>

theorem collection_stays_after_first_add:
  assumes "addEventHandler kb act h = (Inr (), kb')"
  shows "(\<exists>xs. shortcutHandlers (run env kb' ops) act = JArray xs) \<and>
         shortcutHandlers (run env kb' ops) act \<noteq> Undefined \<and>
         (shortcutHandlers (run env kb' ops) act = JArray [] \<longrightarrow>
            callback env act (run env kb' ops) = (Inr (), [], run env kb' ops))"
proof -
  have "map_obj (eventHandlers kb') act \<noteq> None"
    using addEventHandler_own [OF assms] by simp
  then have "map_obj (eventHandlers (run env kb' ops)) act \<noteq> None"
    by (rule run_keeps_array)
  then obtain xs where own: "map_obj (eventHandlers (run env kb' ops)) act = Some xs"
    by auto
  then have get: "shortcutHandlers (run env kb' ops) act = JArray xs"
    by (simp add: shortcutHandlers_JArray_iff)
  have "callback env act (run env kb' ops) = (Inr (), [], run env kb' ops)" if "xs = []"
    using own that by (simp add: callback_empty_array)
  with get show ?thesis by simp
qed

theorem collection_stays_after_first_add_witness:
  "addEventHandler example_registry ''quit'' (JFun 1)
     = (Inr (), example_with ''quit'' [JFun 1]) \<and>
   shortcutHandlers
     (run inert (example_with ''quit'' [JFun 1]) [Op_removeShortcutHandler ''quit'' (JFun 1)])
     ''quit'' = JArray [] \<and>
   callback inert ''quit''
     (run inert (example_with ''quit'' [JFun 1]) [Op_removeShortcutHandler ''quit'' (JFun 1)])
     = (Inr (), [],
        run inert (example_with ''quit'' [JFun 1]) [Op_removeShortcutHandler ''quit'' (JFun 1)])"
proof -
  have add: "addEventHandler example_registry ''quit'' (JFun 1)
      = (Inr (), example_with ''quit'' [JFun 1])"
    by (rule addEventHandler_example) (simp add: object_prototype_names_def)
  have drained: "shortcutHandlers
     (run inert (example_with ''quit'' [JFun 1]) [Op_removeShortcutHandler ''quit'' (JFun 1)])
     ''quit'' = JArray []"
    by (simp add: run_def removeShortcutHandler_example_with shortcutHandlers_JArray_iff
        example_with_simps)
  show ?thesis
    using collection_stays_after_first_add
      [OF add, of inert "[Op_removeShortcutHandler ''quit'' (JFun 1)]"] add drained
    by simp
qed

text \<open>
  C9. Every value stored in the handler multimap of a registry is a function: it is so
  in a new registry, every operation keeps it so, whatever the handlers that a callback
  runs do, and hence it is so after every sequence of operations on a new registry.
\<close>

theorem stored_handlers_are_functions:
  "handlers_invocable (fst (KeyBindings_new bs)) \<and>
   (handlers_invocable kb \<longrightarrow> handlers_invocable (step env kb op)) \<and>
   handlers_invocable (run env (fst (KeyBindings_new bs)) ops)"
  using new_invocable [of bs] step_invocable [of kb env op]
    run_invocable [OF new_invocable, of env bs ops]
  by blast

theorem stored_handlers_are_functions_witness:
  "handlers_invocable example_registry \<and>
   handlers_invocable (step inert example_registry (Op_addEventHandler ''quit'' (JFun 1))) \<and>
   step inert example_registry (Op_addEventHandler ''quit'' (JFun 1))
     = example_with ''quit'' [JFun 1] \<and>
   handlers_invocable (step inert example_registry (Op_addEventHandler ''quit'' (JNum 42))) \<and>
   step inert example_registry (Op_addEventHandler ''quit'' (JNum 42)) = example_registry"
proof -
  have inv: "handlers_invocable example_registry"
    by (rule example_invocable)
  have add: "step inert example_registry (Op_addEventHandler ''quit'' (JFun 1))
      = example_with ''quit'' [JFun 1]"
    by (simp add: addEventHandler_example object_prototype_names_def)
  have bad: "step inert example_registry (Op_addEventHandler ''quit'' (JNum 42)) = example_registry"
    by (simp add: addEventHandler_def)
  from stored_handlers_are_functions
    [of example_bindings example_registry inert "Op_addEventHandler ''quit'' (JFun 1)" "[]"]
  have "handlers_invocable (step inert example_registry (Op_addEventHandler ''quit'' (JFun 1)))"
    using inv by blast
  moreover from stored_handlers_are_functions
    [of example_bindings example_registry inert "Op_addEventHandler ''quit'' (JNum 42)" "[]"]
  have "handlers_invocable (step inert example_registry (Op_addEventHandler ''quit'' (JNum 42)))"
    using inv by blast
  ultimately show ?thesis
    using inv add bad by simp
qed

text \<open>
  C10. For distinct action names \<open>A\<close> and \<open>B\<close>, \<open>addEventHandler(A, h)\<close> and
  \<open>removeShortcutHandler(A, h)\<close>, whether they return or raise, leave what
  \<open>shortcutHandlers(B)\<close> returns as it was.
\<close>

theorem other_action_untouched:
  assumes "A \<noteq> B"
  shows "shortcutHandlers (snd (addEventHandler kb A h)) B = shortcutHandlers kb B \<and>
         shortcutHandlers (snd (removeShortcutHandler kb A h)) B = shortcutHandlers kb B"
proof -
  from assms have ne: "B \<noteq> A" by simp
  have "map_obj (eventHandlers (snd (addEventHandler kb A h))) B = map_obj (eventHandlers kb) B"
    using Multimap_put_other [OF ne, of "eventHandlers kb" h]
    by (auto simp: addEventHandler_def split: prod.splits)
  moreover
  have "map_obj (eventHandlers (snd (removeShortcutHandler kb A h))) B = map_obj (eventHandlers kb) B"
    using Multimap_remove_other [OF ne, of "eventHandlers kb" h]
    by (auto simp: removeShortcutHandler_def split: prod.splits)
  ultimately show ?thesis
    by (simp add: shortcutHandlers_def Multimap_get_def property_def)
qed

theorem other_action_untouched_witness:
  "''zoom-in'' \<noteq> ''quit'' \<and>
   shortcutHandlers (example_registry\<lparr>eventHandlers := \<lparr>map_obj = [''quit'' \<mapsto> [JFun 2]]\<rparr>\<rparr>)
     ''quit'' = JArray [JFun 2] \<and>
   shortcutHandlers
     (snd (addEventHandler
        (example_registry\<lparr>eventHandlers := \<lparr>map_obj = [''quit'' \<mapsto> [JFun 2]]\<rparr>\<rparr>)
        ''zoom-in'' (JFun 1))) ''quit'' = JArray [JFun 2] \<and>
   shortcutHandlers
     (snd (removeShortcutHandler
        (example_registry\<lparr>eventHandlers := \<lparr>map_obj = [''quit'' \<mapsto> [JFun 2]]\<rparr>\<rparr>)
        ''zoom-in'' (JFun 2))) ''quit'' = JArray [JFun 2]"
proof -
  have ne: "''zoom-in'' \<noteq> ''quit''" by simp
  have before: "shortcutHandlers
     (example_registry\<lparr>eventHandlers := \<lparr>map_obj = [''quit'' \<mapsto> [JFun 2]]\<rparr>\<rparr>) ''quit''
     = JArray [JFun 2]"
    by (simp add: shortcutHandlers_def Multimap_get_def property_def)
  show ?thesis
    using other_action_untouched [OF ne,
        of "example_registry\<lparr>eventHandlers := \<lparr>map_obj = [''quit'' \<mapsto> [JFun 2]]\<rparr>\<rparr>" "JFun 1"]
      other_action_untouched [OF ne,
        of "example_registry\<lparr>eventHandlers := \<lparr>map_obj = [''quit'' \<mapsto> [JFun 2]]\<rparr>\<rparr>" "JFun 2"]
      before
    by simp
qed

end
